theory Spec2Isabelle
  imports Complex_Main "HOL-Library.Multiset"
begin

section \<open>Data model of the audio player engine (src/ui/player.js)\<close>

text \<open>
  A track is a JavaScript object. Only the fields the engine's sequencing, caching and
  restore logic reads are kept; display metadata (title, artist) is left out. A field that
  may be missing or null is an option; \<open>None\<close> is JavaScript's undefined/null.
\<close>

record track =
  youtube_id :: "string option"
  duration :: "int option"
  file_path :: "string option"
  downloaded :: bool

text \<open>An array slot read from a JavaScript array: \<open>None\<close> is undefined.\<close>

type_synonym slot = "track option"

datatype context_type = Online | Playlist | Liked | Downloads

record playback_context =
  ctype :: "context_type option"
  cid :: "string option"
  cname :: "string option"
  tracks :: "track list"
  shuffle :: bool

text \<open>The argument object of \<open>playContext\<close>.\<close>

record context_arg =
  arg_type :: "context_type option"
  arg_id :: "string option"
  arg_name :: "string option"
  arg_tracks :: "track list"
  arg_startIndex :: "int option"
  arg_shuffle :: bool

text \<open>A value of the preload cache (a JavaScript Map from track id to this object).\<close>

record cache_entry =
  url :: string
  ctrack :: track
  timestamp :: int
  cduration :: int

text \<open>
  The Map keeps insertion order, and \<open>cleanupPreloadCache\<close> depends on it (a stable
  sort of \<open>entries()\<close>), so the cache is an association list in insertion order.
\<close>

type_synonym cache = "(string option \<times> cache_entry) list"

record state =
  currentTrack :: "track option"
  savedRestoreTime :: real
  temporaryQueue :: "track list"
  contextQueue :: "slot list"
  contextQueueIndex :: int
  queue :: "slot list"
  queueIndex :: int
  preloadCache :: cache
  isPlaying :: bool
  playbackContext :: playback_context
  shuffledIndices :: "int list"
  originalQueue :: "track list"
  audio_src :: "string option"
  audio_currentTime :: real
  audio_paused :: bool

text \<open>
  How a JavaScript call completes: it returns (after writing some entries to the console)
  or it throws. A method that can throw, or whose failure a caller might expect, gives
  the state it leaves together with its outcome.
\<close>

datatype js_error = TypeError

datatype console_entry = ConsoleError string

datatype outcome = Returns "console_entry list" | Throws js_error

definition maxPreloadTracks :: int where
  "maxPreloadTracks = 5"

definition maxPreloadDuration :: int where
  "maxPreloadDuration = 1800"

definition empty_context :: playback_context where
  "empty_context = \<lparr>ctype = None, cid = None, cname = None, tracks = [], shuffle = False\<rparr>"

text \<open>The state the constructor leaves (the media element starts paused, without a source).\<close>

definition initial :: state where
  "initial = \<lparr>currentTrack = None, savedRestoreTime = 0, temporaryQueue = [],
     contextQueue = [], contextQueueIndex = - 1, queue = [], queueIndex = - 1,
     preloadCache = [], isPlaying = False, playbackContext = empty_context,
     shuffledIndices = [], originalQueue = [],
     audio_src = None, audio_currentTime = 0, audio_paused = True\<rparr>"

section \<open>JavaScript array and truthiness helpers\<close>

text \<open>\<open>xs[i]\<close>: undefined outside the array.\<close>

definition js_nth :: "'a list \<Rightarrow> int \<Rightarrow> 'a option" where
  "js_nth xs i = (if 0 \<le> i \<and> i < int (length xs) then Some (xs ! nat i) else None)"

text \<open>\<open>xs[i]\<close> on an array of slots: undefined outside the array or in an undefined slot.\<close>

definition slot_at :: "slot list \<Rightarrow> int \<Rightarrow> slot" where
  "slot_at xs i = (case js_nth xs i of None \<Rightarrow> None | Some sl \<Rightarrow> sl)"

text \<open>\<open>xs.slice(i)\<close>: a negative start counts from the end.\<close>

definition js_slice_from :: "'a list \<Rightarrow> int \<Rightarrow> 'a list" where
  "js_slice_from xs i =
     (if 0 \<le> i then drop (nat i) xs else drop (nat (int (length xs) + i)) xs)"

text \<open>\<open>!track.youtube_id\<close>: a missing id and the empty string are both falsy.\<close>

definition truthy_id :: "string option \<Rightarrow> bool" where
  "truthy_id i = (case i of None \<Rightarrow> False | Some s \<Rightarrow> s \<noteq> [])"

text \<open>\<open>!track || !track.youtube_id\<close>\<close>

definition invalid_track :: "track option \<Rightarrow> bool" where
  "invalid_track t = (case t of None \<Rightarrow> True | Some tr \<Rightarrow> \<not> truthy_id (youtube_id tr))"

text \<open>\<open>xs.findIndex(p)\<close>: the first index whose element satisfies p, or -1.\<close>

fun findIndex :: "('a \<Rightarrow> bool) \<Rightarrow> 'a list \<Rightarrow> int" where
  "findIndex p [] = - 1"
| "findIndex p (x # xs) =
     (if p x then 0 else (let r = findIndex p xs in if r < 0 then - 1 else r + 1))"

section \<open>The preload cache as a Map\<close>

fun map_has :: "'k \<Rightarrow> ('k \<times> 'v) list \<Rightarrow> bool" where
  "map_has k [] = False"
| "map_has k ((k', v) # m) = (k = k' \<or> map_has k m)"

fun map_get :: "'k \<Rightarrow> ('k \<times> 'v) list \<Rightarrow> 'v option" where
  "map_get k [] = None"
| "map_get k ((k', v) # m) = (if k = k' then Some v else map_get k m)"

text \<open>\<open>set\<close> keeps the position of a key already present and appends a new one.\<close>

fun map_set :: "'k \<Rightarrow> 'v \<Rightarrow> ('k \<times> 'v) list \<Rightarrow> ('k \<times> 'v) list" where
  "map_set k v [] = [(k, v)]"
| "map_set k v ((k', v') # m) = (if k = k' then (k, v) # m else (k', v') # map_set k v m)"

fun map_delete :: "'k \<Rightarrow> ('k \<times> 'v) list \<Rightarrow> ('k \<times> 'v) list" where
  "map_delete k [] = []"
| "map_delete k ((k', v) # m) = (if k = k' then m else (k', v) # map_delete k m)"

section \<open>Loading a track\<close>

text \<open>
  \<open>loadAndPlayTrack\<close> records the track as current, picks a source (the local file of a
  downloaded track, a cached stream URL, or the answer of the external resolver, which may
  fail) and starts the media element. Every failure is caught inside the function and
  only reported, so the queues are never touched. The resolver is a parameter: \<open>None\<close> is
  a failed resolution. Called with undefined, the read of \<open>track.file_path\<close> raises inside
  the try block after the current track has been overwritten.
\<close>

definition file_url :: "string \<Rightarrow> string" where
  "file_url p = ''file:///'' @ map (\<lambda>c. if c = CHR 0x5C then CHR ''/'' else c) p"

definition local_file :: "track \<Rightarrow> string option" where
  "local_file t =
     (case file_path t of
        None \<Rightarrow> None
      | Some p \<Rightarrow> if p \<noteq> [] \<and> downloaded t then Some p else None)"

definition start_source :: "state \<Rightarrow> string \<Rightarrow> state" where
  "start_source s u = s\<lparr>audio_src := Some u, audio_paused := False\<rparr>"

definition loadAndPlayTrack :: "(string option \<Rightarrow> string option) \<Rightarrow> state \<Rightarrow> slot \<Rightarrow> state" where
  "loadAndPlayTrack resolve s sl =
     (case sl of
        None \<Rightarrow> s\<lparr>currentTrack := None\<rparr>
      | Some t \<Rightarrow>
          (let s1 = s\<lparr>currentTrack := Some t\<rparr> in
           case local_file t of
             Some p \<Rightarrow> start_source s1 (file_url p)
           | None \<Rightarrow>
               (case map_get (youtube_id t) (preloadCache s1) of
                  Some e \<Rightarrow> start_source s1 (url e)
                | None \<Rightarrow>
                    (case resolve (youtube_id t) of
                       Some u \<Rightarrow> start_source s1 u
                     | None \<Rightarrow> s1))))"

section \<open>The queue manager\<close>

definition rebuildCombinedQueue :: "state \<Rightarrow> state" where
  "rebuildCombinedQueue s =
     (let remainingContext = js_slice_from (contextQueue s) (contextQueueIndex s + 1) in
      s\<lparr>queue := filter (\<lambda>t. t \<noteq> None)
                    (currentTrack s # map Some (temporaryQueue s) @ remainingContext),
        queueIndex := 0\<rparr>)"

text \<open>
  \<open>addToQueue\<close> has no throw statement: an identity-less track is reported with
  \<open>console.error('Invalid track:', track)\<close> and the function returns early.
\<close>

definition addToQueue :: "state \<Rightarrow> track option \<Rightarrow> bool \<Rightarrow> state \<times> outcome" where
  "addToQueue s tr playNext_flag =
     (case tr of
        None \<Rightarrow> (s, Returns [ConsoleError ''Invalid track:''])
      | Some t \<Rightarrow>
          if \<not> truthy_id (youtube_id t) then (s, Returns [ConsoleError ''Invalid track:''])
          else (rebuildCombinedQueue
                 (s\<lparr>temporaryQueue :=
                      (if playNext_flag then t # temporaryQueue s
                       else temporaryQueue s @ [t])\<rparr>), Returns []))"

text \<open>
  \<open>playNext\<close> and \<open>playPrevious\<close> return the new state together with the track handed to
  \<open>loadAndPlayTrack\<close>, if the call reached it with a track.
\<close>

definition playNext :: "(string option \<Rightarrow> string option) \<Rightarrow> state \<Rightarrow> state \<times> track option" where
  "playNext resolve s =
     (case temporaryQueue s of
        t # rest \<Rightarrow>
          (loadAndPlayTrack resolve (rebuildCombinedQueue (s\<lparr>temporaryQueue := rest\<rparr>)) (Some t),
           Some t)
      | [] \<Rightarrow>
          if contextQueueIndex s < int (length (contextQueue s)) - 1 then
            (let s1 = s\<lparr>contextQueueIndex := contextQueueIndex s + 1,
                        queueIndex := queueIndex s + 1\<rparr> in
             case slot_at (contextQueue s1) (contextQueueIndex s1) of
               None \<Rightarrow> (s1, None)
             | Some t \<Rightarrow> (loadAndPlayTrack resolve s1 (Some t), Some t))
          else (s, None))"

definition playPrevious :: "(string option \<Rightarrow> string option) \<Rightarrow> state \<Rightarrow> state \<times> track option" where
  "playPrevious resolve s =
     (if audio_currentTime s > 3 then (s\<lparr>audio_currentTime := 0\<rparr>, None)
      else if contextQueueIndex s > 0 then
        (let s1 = s\<lparr>contextQueueIndex := contextQueueIndex s - 1\<rparr>;
             sl = slot_at (contextQueue s1) (contextQueueIndex s1) in
         (rebuildCombinedQueue (loadAndPlayTrack resolve s1 sl), sl))
      else (s\<lparr>audio_currentTime := 0\<rparr>, None))"

section \<open>Playing a track or a context, clearing\<close>

definition playTrack :: "(string option \<Rightarrow> string option) \<Rightarrow> state \<Rightarrow> track \<Rightarrow> state \<times> track option" where
  "playTrack resolve s t =
     (let s1 = s\<lparr>temporaryQueue := [],
                 playbackContext := \<lparr>ctype = Some Online, cid = None, cname = None,
                                      tracks = [t], shuffle = False\<rparr>,
                 contextQueue := [Some t], contextQueueIndex := 0,
                 queue := [Some t], queueIndex := 0\<rparr> in
      (loadAndPlayTrack resolve s1 (Some t), Some t))"

text \<open>The deprecated \<open>playQueue(tracks, startIndex)\<close>.\<close>

definition playQueue :: "(string option \<Rightarrow> string option) \<Rightarrow> state \<Rightarrow> track list \<Rightarrow> int \<Rightarrow> state \<times> track option" where
  "playQueue resolve s ts startIndex =
     (let s1 = s\<lparr>temporaryQueue := [], contextQueue := map Some ts,
                 contextQueueIndex := startIndex,
                 queue := map Some ts, queueIndex := startIndex\<rparr>;
          sl = js_nth ts startIndex in
      (loadAndPlayTrack resolve s1 sl, sl))"

definition getContextDisplayName :: "context_type option \<Rightarrow> string option" where
  "getContextDisplayName ty =
     (case ty of
        Some Liked \<Rightarrow> Some ''Liked Songs''
      | Some Downloads \<Rightarrow> Some ''Downloads''
      | Some Online \<Rightarrow> None
      | _ \<Rightarrow> None)"

text \<open>\<open>a || b\<close> on strings that may be missing: the empty string is falsy.\<close>

definition str_or :: "string option \<Rightarrow> string option \<Rightarrow> string option" where
  "str_or a b = (if truthy_id a then a else b)"

text \<open>\<open>n || 0\<close> on a number that may be missing.\<close>

definition num_or_0 :: "int option \<Rightarrow> int" where
  "num_or_0 n = (case n of None \<Rightarrow> 0 | Some v \<Rightarrow> v)"

section \<open>Shuffle\<close>

text \<open>
  The Fisher-Yates loop \<open>for (i = n - 1; i > 0; i--)\<close>. The random source is a parameter:
  \<open>rnd i\<close> is the draw made at loop counter \<open>i\<close>, and \<open>Math.floor(Math.random() * (i + 1))\<close>
  ranges over exactly \<open>0..i\<close>, which \<open>rnd i mod (i + 1)\<close> does as \<open>rnd\<close> varies.
\<close>

fun fisher_yates :: "(nat \<Rightarrow> nat) \<Rightarrow> nat \<Rightarrow> 'a list \<Rightarrow> 'a list" where
  "fisher_yates rnd 0 xs = xs"
| "fisher_yates rnd (Suc i) xs =
     (let j = rnd (Suc i) mod (Suc i + 1) in
      fisher_yates rnd i (xs[Suc i := xs ! j, j := xs ! Suc i]))"

definition enableShuffle :: "(nat \<Rightarrow> nat) \<Rightarrow> track list \<Rightarrow> int \<Rightarrow> state \<Rightarrow> state" where
  "enableShuffle rnd ts currentIndex s =
     (let indices = filter (\<lambda>i. int i \<noteq> currentIndex) [0 ..< length ts];
          shuffled = fisher_yates rnd (length indices - 1) indices;
          si = currentIndex # map int shuffled;
          cq = map (js_nth ts) si in
      s\<lparr>originalQueue := ts, shuffledIndices := si,
        contextQueue := cq, contextQueueIndex := 0,
        playbackContext := (playbackContext s)\<lparr>shuffle := True\<rparr>,
        queue := cq, queueIndex := 0\<rparr>)"

definition disableShuffle :: "state \<Rightarrow> state" where
  "disableShuffle s =
     (case currentTrack s of
        None \<Rightarrow> s
      | Some cur \<Rightarrow>
          if length (originalQueue s) > 0 then
            (let currentIndex = findIndex (\<lambda>t. youtube_id t = youtube_id cur) (originalQueue s);
                 cq = map Some (originalQueue s);
                 ix = (if currentIndex \<ge> 0 then currentIndex else 0) in
             s\<lparr>contextQueue := cq, contextQueueIndex := ix,
               playbackContext := (playbackContext s)\<lparr>shuffle := False\<rparr>,
               shuffledIndices := [], originalQueue := [],
               queue := cq, queueIndex := ix\<rparr>)
          else s)"

text \<open>\<open>toggleShuffle\<close> pins \<open>this.queueIndex\<close>, the index of the combined queue.\<close>

definition toggleShuffle :: "(nat \<Rightarrow> nat) \<Rightarrow> state \<Rightarrow> state \<times> bool" where
  "toggleShuffle rnd s =
     (let s' = (if shuffle (playbackContext s) then disableShuffle s
                else if length (tracks (playbackContext s)) > 0
                  then enableShuffle rnd (tracks (playbackContext s)) (queueIndex s) s
                else s) in
      (s', shuffle (playbackContext s')))"

definition playContext :: "(nat \<Rightarrow> nat) \<Rightarrow> (string option \<Rightarrow> string option) \<Rightarrow> state \<Rightarrow> context_arg \<Rightarrow> state \<times> track option" where
  "playContext rnd resolve s c =
     (let s1 = s\<lparr>temporaryQueue := [],
                 playbackContext :=
                   \<lparr>ctype = arg_type c, cid = str_or (arg_id c) None,
                    cname = str_or (arg_name c) (getContextDisplayName (arg_type c)),
                    tracks = arg_tracks c, shuffle = arg_shuffle c\<rparr>\<rparr>;
          s2 = (if arg_shuffle c
                then enableShuffle rnd (arg_tracks c) (num_or_0 (arg_startIndex c)) s1
                else s1\<lparr>contextQueue := map Some (arg_tracks c),
                        contextQueueIndex := num_or_0 (arg_startIndex c)\<rparr>);
          s3 = s2\<lparr>queue := contextQueue s2, queueIndex := contextQueueIndex s2\<rparr> in
      if length (contextQueue s3) > 0 then
        (let sl = slot_at (contextQueue s3) (contextQueueIndex s3) in
         (loadAndPlayTrack resolve s3 sl, sl))
      else (s3, None))"

definition clearQueue :: "state \<Rightarrow> state" where
  "clearQueue s =
     s\<lparr>queue := [], queueIndex := - 1, temporaryQueue := [],
       contextQueue := [], contextQueueIndex := - 1, preloadCache := [],
       playbackContext := empty_context\<rparr>"

section \<open>Media element events\<close>

definition onPlay :: "state \<Rightarrow> state" where
  "onPlay s = s\<lparr>isPlaying := True\<rparr>"

definition onPause :: "state \<Rightarrow> state" where
  "onPause s = s\<lparr>isPlaying := False\<rparr>"

section \<open>Preload cache cleanup\<close>

text \<open>\<open>entries.reduce((sum, [, data]) => sum + (data.duration || 0), 0)\<close>\<close>

definition total_duration :: "cache \<Rightarrow> int" where
  "total_duration c = foldl (\<lambda>sum kd. sum + cduration (snd kd)) 0 c"

text \<open>
  The eviction loop over the entries sorted by timestamp. \<open>entries.shift()\<close> on an empty
  array is undefined, and destructuring it throws.
\<close>

fun evict :: "cache \<Rightarrow> int \<Rightarrow> cache \<Rightarrow> cache \<times> outcome" where
  "evict [] tot c =
     (if 0 > maxPreloadTracks \<or> tot > maxPreloadDuration then (c, Throws TypeError)
      else (c, Returns []))"
| "evict ((k, d) # es) tot c =
     (if int (length ((k, d) # es)) > maxPreloadTracks \<or> tot > maxPreloadDuration
      then evict es (tot - cduration d) (map_delete k c)
      else (c, Returns []))"

definition cleanupPreloadCache :: "state \<Rightarrow> state \<times> outcome" where
  "cleanupPreloadCache s =
     (if int (length (preloadCache s)) > maxPreloadTracks then
        (let entries = preloadCache s;
             totalDuration = total_duration entries;
             sorted = sort_key (\<lambda>kd. timestamp (snd kd)) entries;
             (c, res) = evict sorted totalDuration (preloadCache s) in
         (s\<lparr>preloadCache := c\<rparr>, res))
      else (s, Returns []))"

text \<open>
  The body of the preload loop for one track whose stream URL \<open>u\<close> was resolved at time
  \<open>now\<close>: store the entry, then clean up.
\<close>

definition preloadStore :: "state \<Rightarrow> track \<Rightarrow> string \<Rightarrow> int \<Rightarrow> state \<times> outcome" where
  "preloadStore s t u now =
     cleanupPreloadCache
       (s\<lparr>preloadCache :=
            map_set (youtube_id t)
              \<lparr>url = u, ctrack = t, timestamp = now, cduration = num_or_0 (duration t)\<rparr>
              (preloadCache s)\<rparr>)"

text \<open>
  The selection loop of \<open>preloadUpcomingTracks\<close>: \<open>n\<close> iterations are left, \<open>pos\<close> is
  \<open>queueIndex + i\<close>. Reading \<open>track.duration\<close> of an undefined slot throws.
\<close>

fun select_preload :: "nat \<Rightarrow> int \<Rightarrow> slot list \<Rightarrow> cache \<Rightarrow> int \<Rightarrow> track list \<Rightarrow> track list option" where
  "select_preload 0 pos q c tot acc = Some acc"
| "select_preload (Suc n) pos q c tot acc =
     (if pos < int (length q) then
        (case slot_at q pos of
           None \<Rightarrow> None
         | Some t \<Rightarrow>
             if tot + num_or_0 (duration t) > maxPreloadDuration then Some acc
             else if map_has (youtube_id t) c \<or> downloaded t
               then select_preload n (pos + 1) q c tot acc
             else select_preload n (pos + 1) q c (tot + num_or_0 (duration t)) (acc @ [t]))
      else Some acc)"

text \<open>
  The second loop: each selected track is resolved and stored; a failed resolution or a
  throw is caught and the loop goes on. \<open>clock k\<close> is \<open>Date.now()\<close> at the k-th store.
\<close>

fun store_all :: "(string option \<Rightarrow> string option) \<Rightarrow> (nat \<Rightarrow> int) \<Rightarrow> nat \<Rightarrow> track list \<Rightarrow> state \<Rightarrow> state" where
  "store_all resolve clock k [] s = s"
| "store_all resolve clock k (t # ts) s =
     (case resolve (youtube_id t) of
        None \<Rightarrow> store_all resolve clock (Suc k) ts s
      | Some u \<Rightarrow> store_all resolve clock (Suc k) ts (fst (preloadStore s t u (clock k))))"

definition preloadUpcomingTracks :: "(string option \<Rightarrow> string option) \<Rightarrow> (nat \<Rightarrow> int) \<Rightarrow> state \<Rightarrow> state \<times> outcome" where
  "preloadUpcomingTracks resolve clock s =
     (case select_preload (nat maxPreloadTracks) (queueIndex s + 1) (queue s)
             (preloadCache s) 0 [] of
        None \<Rightarrow> (s, Throws TypeError)
      | Some ts \<Rightarrow> (store_all resolve clock 0 ts s, Returns []))"

section \<open>Saving and restoring the playback state\<close>

text \<open>
  The object written to \<open>localStorage\<close> as JSON. Every field may be missing when it is read
  back (the payload is whatever the store holds), except the flag, which is only stored.
\<close>

record snapshot =
  sn_track :: "track option"
  sn_currentTime :: "real option"
  sn_isPlaying :: bool
  sn_queue :: "slot list option"
  sn_queueIndex :: "int option"
  sn_temporaryQueue :: "track list option"
  sn_contextQueue :: "slot list option"
  sn_contextQueueIndex :: "int option"
  sn_playbackContext :: "playback_context option"
  sn_originalQueue :: "track list option"
  sn_shuffledIndices :: "int list option"

text \<open>What \<open>localStorage.getItem\<close> holds: text \<open>JSON.parse\<close> rejects, or a snapshot.\<close>

datatype stored = Unparsable | Json snapshot

definition savePlaybackState :: "state \<Rightarrow> snapshot option" where
  "savePlaybackState s =
     (case currentTrack s of
        None \<Rightarrow> None
      | Some t \<Rightarrow>
          Some \<lparr>sn_track = Some t, sn_currentTime = Some (audio_currentTime s),
                sn_isPlaying = isPlaying s,
                sn_queue = Some (queue s), sn_queueIndex = Some (queueIndex s),
                sn_temporaryQueue = Some (temporaryQueue s),
                sn_contextQueue = Some (contextQueue s),
                sn_contextQueueIndex = Some (contextQueueIndex s),
                sn_playbackContext = Some (playbackContext s),
                sn_originalQueue = Some (originalQueue s),
                sn_shuffledIndices = Some (shuffledIndices s)\<rparr>)"

definition list_or_empty :: "'a list option \<Rightarrow> 'a list" where
  "list_or_empty l = (case l of None \<Rightarrow> [] | Some xs \<Rightarrow> xs)"

definition time_or_0 :: "real option \<Rightarrow> real" where
  "time_or_0 t = (case t of None \<Rightarrow> 0 | Some v \<Rightarrow> v)"

text \<open>
  \<open>loadPlaybackState\<close>: everything runs inside one try block. With no track in the payload
  \<open>updatePlayerUI(track)\<close> reads \<open>track.title\<close> of undefined and throws; the catch block only
  logs, so the assignments made before the throw stay and the ones after it are skipped.
\<close>

definition loadPlaybackState :: "state \<Rightarrow> stored option \<Rightarrow> state" where
  "loadPlaybackState s item =
     (case item of
        None \<Rightarrow> s
      | Some Unparsable \<Rightarrow> s
      | Some (Json st) \<Rightarrow>
          (let s1 = s\<lparr>queue := list_or_empty (sn_queue st),
                      queueIndex := num_or_0 (sn_queueIndex st),
                      temporaryQueue := list_or_empty (sn_temporaryQueue st),
                      contextQueue := list_or_empty (sn_contextQueue st),
                      contextQueueIndex := num_or_0 (sn_contextQueueIndex st)\<rparr>;
               s2 = (case sn_playbackContext st of
                       None \<Rightarrow> s1 | Some pc \<Rightarrow> s1\<lparr>playbackContext := pc\<rparr>);
               s3 = (case sn_originalQueue st of
                       None \<Rightarrow> s2 | Some oq \<Rightarrow> s2\<lparr>originalQueue := oq\<rparr>);
               s4 = (case sn_shuffledIndices st of
                       None \<Rightarrow> s3 | Some si \<Rightarrow> s3\<lparr>shuffledIndices := si\<rparr>);
               s5 = s4\<lparr>currentTrack := sn_track st\<rparr> in
           case sn_track st of
             None \<Rightarrow> s5
           | Some t \<Rightarrow>
               (let s6 = (case local_file t of
                            Some p \<Rightarrow>
                              (let s' = s5\<lparr>audio_src := Some (file_url p)\<rparr> in
                               if time_or_0 (sn_currentTime st) > 0
                               then s'\<lparr>audio_currentTime := time_or_0 (sn_currentTime st)\<rparr>
                               else s')
                          | None \<Rightarrow> s5\<lparr>savedRestoreTime := time_or_0 (sn_currentTime st)\<rparr>) in
                s6\<lparr>audio_paused := True, isPlaying := False\<rparr>)))"

section \<open>The context index invariant of the data model\<close>

definition ctx_inv :: "state \<Rightarrow> bool" where
  "ctx_inv s =
     ((contextQueue s \<noteq> [] \<longrightarrow>
         0 \<le> contextQueueIndex s \<and> contextQueueIndex s < int (length (contextQueue s)))
      \<and> (contextQueueIndex s = - 1 \<longleftrightarrow> contextQueue s = []))"

section \<open>Example tracks and states\<close>

text \<open>Concrete inputs on which the theorems below are instantiated.\<close>

definition mk_track :: "string \<Rightarrow> track" where
  "mk_track i = \<lparr>youtube_id = Some i, duration = None, file_path = None, downloaded = False\<rparr>"

definition no_resolver :: "string option \<Rightarrow> string option" where
  "no_resolver i = None"

definition stream_resolver :: "string option \<Rightarrow> string option" where
  "stream_resolver i = Some ''https://stream''"

definition id_rnd :: "nat \<Rightarrow> nat" where
  "id_rnd i = i"

definition abc_arg :: context_arg where
  "abc_arg = \<lparr>arg_type = Some Playlist, arg_id = Some ''7'', arg_name = Some ''Mix'',
     arg_tracks = [mk_track ''A'', mk_track ''B'', mk_track ''C''],
     arg_startIndex = Some 1, arg_shuffle = False\<rparr>"

text \<open>The playlist \<open>[A, B, C]\<close> started on B, then with X queued, then advanced to C.\<close>

definition at_B :: state where
  "at_B = fst (playContext id_rnd stream_resolver initial abc_arg)"

definition queued_at_B :: state where
  "queued_at_B = fst (addToQueue at_B (Some (mk_track ''X'')) False)"

definition at_C :: state where
  "at_C = fst (playNext stream_resolver at_B)"

definition at_B_10s :: state where
  "at_B_10s = at_B\<lparr>audio_currentTime := 10\<rparr>"

definition at_B_1s :: state where
  "at_B_1s = at_B\<lparr>audio_currentTime := 1\<rparr>"

definition no_id_track :: track where
  "no_id_track = \<lparr>youtube_id = None, duration = Some 200, file_path = None, downloaded = False\<rparr>"

definition playing_snapshot :: snapshot where
  "playing_snapshot =
     \<lparr>sn_track = Some (mk_track ''B''), sn_currentTime = Some 42, sn_isPlaying = True,
      sn_queue = Some [Some (mk_track ''B'')], sn_queueIndex = Some 0,
      sn_temporaryQueue = Some [],
      sn_contextQueue = Some [Some (mk_track ''B'')], sn_contextQueueIndex = Some 0,
      sn_playbackContext = None, sn_originalQueue = None, sn_shuffledIndices = None\<rparr>"

definition empty_arg :: context_arg where
  "empty_arg = \<lparr>arg_type = Some Playlist, arg_id = Some ''8'', arg_name = Some ''Empty'',
     arg_tracks = [], arg_startIndex = Some 0, arg_shuffle = False\<rparr>"

definition shuffle_arg :: context_arg where
  "shuffle_arg = abc_arg\<lparr>arg_shuffle := True\<rparr>"

definition long_track :: "string \<Rightarrow> track" where
  "long_track i = \<lparr>youtube_id = Some i, duration = Some 1000, file_path = None, downloaded = False\<rparr>"

definition long_arg :: context_arg where
  "long_arg = \<lparr>arg_type = Some Playlist, arg_id = Some ''9'', arg_name = Some ''Talks'',
     arg_tracks = [long_track ''t0'', long_track ''t1'', long_track ''t2''],
     arg_startIndex = Some 0, arg_shuffle = False\<rparr>"

definition clock_from :: "int \<Rightarrow> nat \<Rightarrow> int" where
  "clock_from t0 k = t0 + int k"

definition long_started :: state where
  "long_started =
     fst (preloadUpcomingTracks stream_resolver (clock_from 100)
       (fst (playContext id_rnd stream_resolver initial long_arg)))"

definition long_cache_state :: state where
  "long_cache_state =
     fst (preloadUpcomingTracks stream_resolver (clock_from 200)
       (fst (playNext stream_resolver long_started)))"

section \<open>Frame lemmas\<close>

lemma loadAndPlayTrack_queues [simp]:
  "temporaryQueue (loadAndPlayTrack r s sl) = temporaryQueue s"
  "contextQueue (loadAndPlayTrack r s sl) = contextQueue s"
  "contextQueueIndex (loadAndPlayTrack r s sl) = contextQueueIndex s"
  "queue (loadAndPlayTrack r s sl) = queue s"
  "queueIndex (loadAndPlayTrack r s sl) = queueIndex s"
  "playbackContext (loadAndPlayTrack r s sl) = playbackContext s"
  "originalQueue (loadAndPlayTrack r s sl) = originalQueue s"
  "shuffledIndices (loadAndPlayTrack r s sl) = shuffledIndices s"
  "preloadCache (loadAndPlayTrack r s sl) = preloadCache s"
  "isPlaying (loadAndPlayTrack r s sl) = isPlaying s"
  "audio_currentTime (loadAndPlayTrack r s sl) = audio_currentTime s"
  "currentTrack (loadAndPlayTrack r s sl) = sl"
  by (simp_all add: loadAndPlayTrack_def start_source_def Let_def split: option.splits)

lemma rebuildCombinedQueue_frame [simp]:
  "temporaryQueue (rebuildCombinedQueue s) = temporaryQueue s"
  "contextQueue (rebuildCombinedQueue s) = contextQueue s"
  "contextQueueIndex (rebuildCombinedQueue s) = contextQueueIndex s"
  "playbackContext (rebuildCombinedQueue s) = playbackContext s"
  "originalQueue (rebuildCombinedQueue s) = originalQueue s"
  "shuffledIndices (rebuildCombinedQueue s) = shuffledIndices s"
  "preloadCache (rebuildCombinedQueue s) = preloadCache s"
  "isPlaying (rebuildCombinedQueue s) = isPlaying s"
  "audio_currentTime (rebuildCombinedQueue s) = audio_currentTime s"
  "currentTrack (rebuildCombinedQueue s) = currentTrack s"
  "queueIndex (rebuildCombinedQueue s) = 0"
  by (simp_all add: rebuildCombinedQueue_def Let_def)

lemma addToQueue_valid:
  "truthy_id (youtube_id t) \<Longrightarrow>
   temporaryQueue (fst (addToQueue s (Some t) pn)) =
     (if pn then t # temporaryQueue s else temporaryQueue s @ [t]) \<and>
   contextQueue (fst (addToQueue s (Some t) pn)) = contextQueue s \<and>
   contextQueueIndex (fst (addToQueue s (Some t) pn)) = contextQueueIndex s"
  by (simp add: addToQueue_def)

lemma playNext_temp:
  "temporaryQueue s = t # rest \<Longrightarrow>
   snd (playNext r s) = Some t \<and> temporaryQueue (fst (playNext r s)) = rest \<and>
   contextQueue (fst (playNext r s)) = contextQueue s \<and>
   contextQueueIndex (fst (playNext r s)) = contextQueueIndex s"
  by (simp add: playNext_def)

lemma playNext_context:
  "temporaryQueue s = [] \<Longrightarrow> contextQueueIndex s < int (length (contextQueue s)) - 1 \<Longrightarrow>
   snd (playNext r s) = slot_at (contextQueue s) (contextQueueIndex s + 1) \<and>
   temporaryQueue (fst (playNext r s)) = [] \<and>
   contextQueue (fst (playNext r s)) = contextQueue s \<and>
   contextQueueIndex (fst (playNext r s)) = contextQueueIndex s + 1"
  by (simp add: playNext_def Let_def split: option.splits)

text \<open>The example playlist state, field by field.\<close>

lemma at_B_fields:
  "contextQueue at_B = [Some (mk_track ''A''), Some (mk_track ''B''), Some (mk_track ''C'')]"
  "contextQueueIndex at_B = 1"
  "queueIndex at_B = 1"
  "temporaryQueue at_B = []"
  "currentTrack at_B = Some (mk_track ''B'')"
  "tracks (playbackContext at_B) = [mk_track ''A'', mk_track ''B'', mk_track ''C'']"
  "shuffle (playbackContext at_B) = False"
  by (simp_all add: at_B_def playContext_def abc_arg_def Let_def num_or_0_def
        slot_at_def js_nth_def)

lemma at_C_fields:
  "contextQueue at_C = [Some (mk_track ''A''), Some (mk_track ''B''), Some (mk_track ''C'')]"
  "contextQueueIndex at_C = 2"
  "temporaryQueue at_C = []"
  "currentTrack at_C = Some (mk_track ''C'')"
  by (simp_all add: at_C_def playNext_def at_B_fields Let_def slot_at_def js_nth_def)

lemma queued_at_B_fields:
  "contextQueue queued_at_B = [Some (mk_track ''A''), Some (mk_track ''B''), Some (mk_track ''C'')]"
  "contextQueueIndex queued_at_B = 1"
  "queueIndex queued_at_B = 0"
  "temporaryQueue queued_at_B = [mk_track ''X'']"
  "currentTrack queued_at_B = Some (mk_track ''B'')"
  "tracks (playbackContext queued_at_B) = [mk_track ''A'', mk_track ''B'', mk_track ''C'']"
  "shuffle (playbackContext queued_at_B) = False"
  by (simp_all add: queued_at_B_def addToQueue_def mk_track_def [of "''X''"] truthy_id_def
        at_B_fields)

section \<open>The worked queue scenario\<close>

text \<open>
  C1. With the context queue \<open>[A, B, C]\<close> at index 1 (track B) and an empty temporary queue,
  \<open>addToQueue(X, true)\<close>, \<open>addToQueue(Y, false)\<close>, \<open>addToQueue(Z, true)\<close> leave the temporary
  queue as \<open>[Z, X, Y]\<close>, and the next four \<open>playNext()\<close> calls play Z, X, Y and C, the first
  three without moving the context index.
\<close>

theorem queue_scenario:
  assumes X: "truthy_id (youtube_id X)" and Y: "truthy_id (youtube_id Y)"
    and Z: "truthy_id (youtube_id Z)"
    and cq: "contextQueue s = [Some A, Some B, Some C]"
    and ix: "contextQueueIndex s = 1"
    and tq: "temporaryQueue s = []"
  shows "(let s1 = fst (addToQueue s (Some X) True);
              s2 = fst (addToQueue s1 (Some Y) False);
              s3 = fst (addToQueue s2 (Some Z) True);
              n1 = playNext r s3; n2 = playNext r (fst n1);
              n3 = playNext r (fst n2); n4 = playNext r (fst n3) in
          temporaryQueue s3 = [Z, X, Y] \<and>
          [snd n1, snd n2, snd n3, snd n4] = [Some Z, Some X, Some Y, Some C] \<and>
          contextQueueIndex (fst n3) = 1 \<and> contextQueueIndex (fst n4) = 2 \<and>
          temporaryQueue (fst n4) = [])"
proof -
  define s1 where "s1 = fst (addToQueue s (Some X) True)"
  define s2 where "s2 = fst (addToQueue s1 (Some Y) False)"
  define s3 where "s3 = fst (addToQueue s2 (Some Z) True)"
  define n1 where "n1 = playNext r s3"
  define n2 where "n2 = playNext r (fst n1)"
  define n3 where "n3 = playNext r (fst n2)"
  define n4 where "n4 = playNext r (fst n3)"
  have a1: "temporaryQueue s1 = [X] \<and> contextQueue s1 = contextQueue s \<and> contextQueueIndex s1 = 1"
    using addToQueue_valid [OF X, of s True] tq ix by (simp add: s1_def)
  have a2: "temporaryQueue s2 = [X, Y] \<and> contextQueue s2 = contextQueue s \<and> contextQueueIndex s2 = 1"
    using addToQueue_valid [OF Y, of s1 False] a1 by (simp add: s2_def)
  have a3: "temporaryQueue s3 = [Z, X, Y] \<and> contextQueue s3 = contextQueue s \<and> contextQueueIndex s3 = 1"
    using addToQueue_valid [OF Z, of s2 True] a2 by (simp add: s3_def)
  have p1: "snd n1 = Some Z \<and> temporaryQueue (fst n1) = [X, Y] \<and>
            contextQueue (fst n1) = contextQueue s \<and> contextQueueIndex (fst n1) = 1"
    using playNext_temp [of s3 Z "[X, Y]" r] a3 by (simp add: n1_def)
  have p2: "snd n2 = Some X \<and> temporaryQueue (fst n2) = [Y] \<and>
            contextQueue (fst n2) = contextQueue s \<and> contextQueueIndex (fst n2) = 1"
    using playNext_temp [of "fst n1" X "[Y]" r] p1 by (simp add: n2_def)
  have p3: "snd n3 = Some Y \<and> temporaryQueue (fst n3) = [] \<and>
            contextQueue (fst n3) = contextQueue s \<and> contextQueueIndex (fst n3) = 1"
    using playNext_temp [of "fst n2" Y "[]" r] p2 by (simp add: n3_def)
  have p4: "snd n4 = Some C \<and> temporaryQueue (fst n4) = [] \<and> contextQueueIndex (fst n4) = 2"
    using playNext_context [of "fst n3" r] p3 cq
    by (simp add: n4_def slot_at_def js_nth_def)
  show ?thesis
    unfolding Let_def
    using a3 p1 p2 p3 p4
    by (simp add: s1_def s2_def s3_def n1_def n2_def n3_def n4_def)
qed

theorem queue_scenario_witness:
  "truthy_id (youtube_id (mk_track ''X'')) \<and> contextQueue at_B = [Some (mk_track ''A''), Some (mk_track ''B''), Some (mk_track ''C'')] \<and>
   contextQueueIndex at_B = 1 \<and> temporaryQueue at_B = [] \<and>
   (let s1 = fst (addToQueue at_B (Some (mk_track ''X'')) True);
              s2 = fst (addToQueue s1 (Some (mk_track ''Y'')) False);
              s3 = fst (addToQueue s2 (Some (mk_track ''Z'')) True);
              n1 = playNext no_resolver s3; n2 = playNext no_resolver (fst n1);
              n3 = playNext no_resolver (fst n2); n4 = playNext no_resolver (fst n3) in
          temporaryQueue s3 = [mk_track ''Z'', mk_track ''X'', mk_track ''Y''] \<and>
          [snd n1, snd n2, snd n3, snd n4] = [Some (mk_track ''Z''), Some (mk_track ''X''), Some (mk_track ''Y''), Some (mk_track ''C'')] \<and>
          contextQueueIndex (fst n3) = 1 \<and> contextQueueIndex (fst n4) = 2 \<and>
          temporaryQueue (fst n4) = [])"
proof -
  have h: "truthy_id (youtube_id (mk_track ''X''))" "truthy_id (youtube_id (mk_track ''Y''))" "truthy_id (youtube_id (mk_track ''Z''))"
    by (simp_all add: mk_track_def truthy_id_def)
  have c: "contextQueue at_B = [Some (mk_track ''A''), Some (mk_track ''B''), Some (mk_track ''C'')]"
     "contextQueueIndex at_B = 1" "temporaryQueue at_B = []"
    by (simp_all add: at_B_fields)
  show ?thesis
    using queue_scenario [OF h c, of no_resolver] h c by simp
qed

section \<open>Advancing and retreating\<close>

text \<open>
  C2. The tie-break rule of \<open>playNext()\<close>, for every state: a non-empty temporary queue
  loses its first element, which is played, and the context index stays; otherwise, when
  the context index is below the last position, the index is incremented and the element
  at the new index is played (for a context queue of tracks and an index of at least -1
  there always is one); otherwise nothing changes and nothing is played.
\<close>

theorem playNext_tie_break:
  "(case temporaryQueue s of
      t # rest \<Rightarrow>
        snd (playNext r s) = Some t \<and>
        currentTrack (fst (playNext r s)) = Some t \<and>
        temporaryQueue (fst (playNext r s)) = rest \<and>
        contextQueueIndex (fst (playNext r s)) = contextQueueIndex s \<and>
        contextQueue (fst (playNext r s)) = contextQueue s
    | [] \<Rightarrow>
        if contextQueueIndex s < int (length (contextQueue s)) - 1 then
          contextQueueIndex (fst (playNext r s)) = contextQueueIndex s + 1 \<and>
          contextQueue (fst (playNext r s)) = contextQueue s \<and>
          temporaryQueue (fst (playNext r s)) = [] \<and>
          snd (playNext r s) = slot_at (contextQueue s) (contextQueueIndex s + 1) \<and>
          (\<forall>ts. contextQueue s = map Some ts \<and> - 1 \<le> contextQueueIndex s \<longrightarrow>
             snd (playNext r s) = Some (ts ! nat (contextQueueIndex s + 1)) \<and>
             currentTrack (fst (playNext r s)) = Some (ts ! nat (contextQueueIndex s + 1)))
        else playNext r s = (s, None))"
proof (cases "temporaryQueue s")
  case (Cons t rest)
  then show ?thesis by (simp add: playNext_def)
next
  case Nil
  show ?thesis
  proof (cases "contextQueueIndex s < int (length (contextQueue s)) - 1")
    case True
    have "snd (playNext r s) = slot_at (contextQueue s) (contextQueueIndex s + 1)"
      using Nil True by (simp add: playNext_def Let_def split: option.splits)
    moreover have "contextQueueIndex (fst (playNext r s)) = contextQueueIndex s + 1"
      "contextQueue (fst (playNext r s)) = contextQueue s"
      "temporaryQueue (fst (playNext r s)) = []"
      using Nil True by (simp_all add: playNext_def Let_def split: option.splits)
    moreover have "currentTrack (fst (playNext r s)) = Some t"
      if "slot_at (contextQueue s) (contextQueueIndex s + 1) = Some t" for t
      using Nil True that by (simp add: playNext_def Let_def)
    moreover have "slot_at (contextQueue s) (contextQueueIndex s + 1)
        = Some (ts ! nat (contextQueueIndex s + 1))"
      if "contextQueue s = map Some ts" "- 1 \<le> contextQueueIndex s" for ts
      using that True by (simp add: slot_at_def js_nth_def)
    ultimately show ?thesis using Nil True by simp
  next
    case False
    then show ?thesis using Nil by (simp add: playNext_def)
  qed
qed

theorem playNext_tie_break_witness:
  "snd (playNext no_resolver queued_at_B) = Some (mk_track ''X'') \<and>
   temporaryQueue (fst (playNext no_resolver queued_at_B)) = [] \<and>
   contextQueueIndex (fst (playNext no_resolver queued_at_B)) = 1 \<and>
   contextQueueIndex (fst (playNext no_resolver at_B)) = 2 \<and>
   snd (playNext no_resolver at_B) = Some (mk_track ''C'') \<and>
   playNext no_resolver at_C = (at_C, None)"
proof -
  have t: "temporaryQueue queued_at_B = [mk_track ''X'']" "contextQueueIndex queued_at_B = 1"
    by (simp_all add: queued_at_B_fields)
  have b: "temporaryQueue at_B = []" "contextQueueIndex at_B = 1"
    "contextQueue at_B = map Some [mk_track ''A'', mk_track ''B'', mk_track ''C'']"
    by (simp_all add: at_B_fields)
  have c: "temporaryQueue at_C = []" "contextQueueIndex at_C = 2"
    "contextQueue at_C = map Some [mk_track ''A'', mk_track ''B'', mk_track ''C'']"
    by (simp_all add: at_C_fields)
  have 1: "snd (playNext no_resolver queued_at_B) = Some (mk_track ''X'') \<and>
   temporaryQueue (fst (playNext no_resolver queued_at_B)) = [] \<and>
   contextQueueIndex (fst (playNext no_resolver queued_at_B)) = 1"
    using playNext_tie_break [of queued_at_B no_resolver] t by simp
  have 2: "contextQueueIndex (fst (playNext no_resolver at_B)) = 2 \<and>
   snd (playNext no_resolver at_B) = Some (mk_track ''C'')"
    using playNext_tie_break [of at_B no_resolver] b by (simp add: slot_at_def js_nth_def)
  have 3: "playNext no_resolver at_C = (at_C, None)"
    using playNext_tie_break [of at_C no_resolver] c by simp
  show ?thesis using 1 2 3 by simp
qed

text \<open>What \<open>playPrevious()\<close> does in each of its three branches.\<close>

lemma playPrevious_general:
  "temporaryQueue (fst (playPrevious r s)) = temporaryQueue s \<and>
   contextQueue (fst (playPrevious r s)) = contextQueue s \<and>
   contextQueueIndex (fst (playPrevious r s)) \<le> contextQueueIndex s \<and>
   (if audio_currentTime s > 3 then playPrevious r s = (s\<lparr>audio_currentTime := 0\<rparr>, None)
    else if contextQueueIndex s > 0 then
      contextQueueIndex (fst (playPrevious r s)) = contextQueueIndex s - 1 \<and>
      snd (playPrevious r s) = slot_at (contextQueue s) (contextQueueIndex s - 1) \<and>
      currentTrack (fst (playPrevious r s)) = slot_at (contextQueue s) (contextQueueIndex s - 1)
    else playPrevious r s = (s\<lparr>audio_currentTime := 0\<rparr>, None))"
  by (simp add: playPrevious_def Let_def)

text \<open>
  C3 (amended). \<open>playPrevious()\<close> never changes the temporary queue or the context queue
  and never increases the context index: past 3 seconds it only resets the position to 0;
  otherwise with a context index above 0 it decrements the index and plays that element;
  otherwise it only resets the position. With the context \<open>[A, B, C]\<close> at index 1: at 10
  seconds it restarts B (the index stays 1, nothing is loaded); at 1 second it moves to
  index 0 and plays A, and a further call at 1 second restarts A at position 0 with no
  index change.
\<close>

theorem playPrevious_amended:
  assumes cq: "contextQueue s = [Some A, Some B, Some C]" and ix: "contextQueueIndex s = 1"
  shows "temporaryQueue (fst (playPrevious r s0)) = temporaryQueue s0 \<and>
   contextQueue (fst (playPrevious r s0)) = contextQueue s0 \<and>
   contextQueueIndex (fst (playPrevious r s0)) \<le> contextQueueIndex s0 \<and>
   (if audio_currentTime s0 > 3 then playPrevious r s0 = (s0\<lparr>audio_currentTime := 0\<rparr>, None)
    else if contextQueueIndex s0 > 0 then
      contextQueueIndex (fst (playPrevious r s0)) = contextQueueIndex s0 - 1 \<and>
      snd (playPrevious r s0) = slot_at (contextQueue s0) (contextQueueIndex s0 - 1) \<and>
      currentTrack (fst (playPrevious r s0)) = slot_at (contextQueue s0) (contextQueueIndex s0 - 1)
    else playPrevious r s0 = (s0\<lparr>audio_currentTime := 0\<rparr>, None)) \<and>
   playPrevious r (s\<lparr>audio_currentTime := 10\<rparr>) = (s\<lparr>audio_currentTime := 0\<rparr>, None) \<and>
   (let n1 = playPrevious r (s\<lparr>audio_currentTime := 1\<rparr>);
        n2 = playPrevious r ((fst n1)\<lparr>audio_currentTime := 1\<rparr>) in
    contextQueueIndex (fst n1) = 0 \<and> snd n1 = Some A \<and> currentTrack (fst n1) = Some A \<and>
    snd n2 = None \<and> contextQueueIndex (fst n2) = 0 \<and> currentTrack (fst n2) = Some A \<and>
    audio_currentTime (fst n2) = 0)"
proof -
  have g: "playPrevious r (s\<lparr>audio_currentTime := 10\<rparr>) = (s\<lparr>audio_currentTime := 0\<rparr>, None)"
    by (simp add: playPrevious_def)
  define n1 where "n1 = playPrevious r (s\<lparr>audio_currentTime := 1\<rparr>)"
  define n2 where "n2 = playPrevious r ((fst n1)\<lparr>audio_currentTime := 1\<rparr>)"
  have p1: "contextQueueIndex (fst n1) = 0 \<and> snd n1 = Some A \<and> currentTrack (fst n1) = Some A"
    using cq ix by (simp add: n1_def playPrevious_def Let_def slot_at_def js_nth_def)
  have p2: "snd n2 = None \<and> contextQueueIndex (fst n2) = 0 \<and> currentTrack (fst n2) = Some A \<and>
    audio_currentTime (fst n2) = 0"
    using p1 by (simp add: n2_def playPrevious_def)
  show ?thesis
    unfolding Let_def
    using playPrevious_general [of r s0] g p1 p2 by (simp add: n1_def n2_def)
qed

theorem playPrevious_amended_witness:
  "contextQueue at_B = [Some (mk_track ''A''), Some (mk_track ''B''), Some (mk_track ''C'')] \<and>
   contextQueueIndex at_B = 1 \<and>
   contextQueueIndex (fst (playPrevious no_resolver at_B_1s)) = 0 \<and>
   snd (playPrevious no_resolver at_B_1s) = Some (mk_track ''A'') \<and>
   playPrevious no_resolver at_B_10s = (at_B\<lparr>audio_currentTime := 0\<rparr>, None)"
proof -
  have c: "contextQueue at_B = [Some (mk_track ''A''), Some (mk_track ''B''), Some (mk_track ''C'')]"
    "contextQueueIndex at_B = 1"
    by (simp_all add: at_B_fields)
  show ?thesis
    using playPrevious_amended [OF c, of no_resolver at_B_1s] c
    by (simp add: at_B_1s_def at_B_10s_def Let_def slot_at_def js_nth_def)
qed

text \<open>
  With 10 seconds elapsed the call does not step back: at index 1, \<open>playPrevious()\<close> does
  not move to index 0 and does not play A; B stays current and its position becomes 0.
\<close>

theorem playPrevious_scenario_counterexample:
  "contextQueue at_B_10s = [Some (mk_track ''A''), Some (mk_track ''B''), Some (mk_track ''C'')] \<and>
   contextQueueIndex at_B_10s = 1 \<and> audio_currentTime at_B_10s = 10 \<and>
   \<not> (contextQueueIndex (fst (playPrevious no_resolver at_B_10s)) = 0 \<and>
      snd (playPrevious no_resolver at_B_10s) = Some (mk_track ''A'')) \<and>
   contextQueueIndex (fst (playPrevious no_resolver at_B_10s)) = 1 \<and>
   snd (playPrevious no_resolver at_B_10s) = None \<and>
   currentTrack (fst (playPrevious no_resolver at_B_10s)) = Some (mk_track ''B'') \<and>
   audio_currentTime (fst (playPrevious no_resolver at_B_10s)) = 0"
  by (simp add: playPrevious_def at_B_10s_def at_B_fields)

section \<open>Rejected tracks\<close>

text \<open>
  C7 (amended). For a track argument without a truthy identity (null or undefined, or a
  missing or empty id), \<open>addToQueue\<close> writes an ``Invalid track'' error to the console and
  returns normally; it throws nothing, and no field of the engine state changes.
\<close>

theorem addToQueue_invalid_returns:
  "invalid_track tr \<Longrightarrow> addToQueue s tr pn = (s, Returns [ConsoleError ''Invalid track:''])"
  by (auto simp: addToQueue_def invalid_track_def split: option.splits)

theorem addToQueue_invalid_returns_witness:
  "invalid_track (Some no_id_track) \<and>
   addToQueue at_B (Some no_id_track) True = (at_B, Returns [ConsoleError ''Invalid track:''])"
proof -
  have h: "invalid_track (Some no_id_track)"
    by (simp add: invalid_track_def no_id_track_def truthy_id_def)
  show ?thesis using addToQueue_invalid_returns [OF h, of at_B True] h by simp
qed

text \<open>
  The call does not fail: with a null track it completes normally, not with a thrown error.
\<close>

theorem addToQueue_invalid_counterexample:
  "invalid_track None \<and>
   snd (addToQueue initial None False) = Returns [ConsoleError ''Invalid track:''] \<and>
   snd (addToQueue initial None False) \<noteq> Throws TypeError \<and>
   fst (addToQueue initial None False) = initial"
  by (simp add: addToQueue_def invalid_track_def)

section \<open>Restore\<close>

lemma savePlaybackState_has_track:
  "savePlaybackState s0 = Some snap \<Longrightarrow> sn_track snap = currentTrack s0 \<and> sn_track snap \<noteq> None"
  by (auto simp: savePlaybackState_def split: option.splits)

text \<open>
  C8. After \<open>loadPlaybackState\<close> on a snapshot that holds a track (every snapshot that
  \<open>savePlaybackState\<close> writes does), the engine is not playing and the media element is
  paused, whatever play/pause flag the snapshot stores and whatever the engine was doing.
  A payload without a track makes the restore stop early; then the engine stays as paused
  as it was, which at start-up it is.
\<close>

theorem restore_paused:
  assumes "sn_track snap \<noteq> None \<or> (\<not> isPlaying s \<and> audio_paused s)"
  shows "\<not> isPlaying (loadPlaybackState s (Some (Json (snap\<lparr>sn_isPlaying := flag\<rparr>)))) \<and>
         audio_paused (loadPlaybackState s (Some (Json (snap\<lparr>sn_isPlaying := flag\<rparr>))))"
  using assms
  by (auto simp: loadPlaybackState_def Let_def split: option.splits)

theorem restore_paused_witness:
  "sn_track playing_snapshot \<noteq> None \<and> sn_isPlaying playing_snapshot \<and>
   isPlaying (onPlay at_B) \<and>
   \<not> isPlaying (loadPlaybackState (onPlay at_B) (Some (Json playing_snapshot))) \<and>
   audio_paused (loadPlaybackState (onPlay at_B) (Some (Json playing_snapshot)))"
proof -
  have h: "sn_track playing_snapshot \<noteq> None" by (simp add: playing_snapshot_def)
  have f: "playing_snapshot\<lparr>sn_isPlaying := True\<rparr> = playing_snapshot"
    by (simp add: playing_snapshot_def)
  have p: "sn_isPlaying playing_snapshot" "isPlaying (onPlay at_B)"
    by (simp_all add: playing_snapshot_def onPlay_def)
  show ?thesis
    using restore_paused [of playing_snapshot "onPlay at_B" True] h f p by simp
qed

section \<open>Shuffle leaves the temporary queue alone\<close>

lemma enableShuffle_temporaryQueue [simp]:
  "temporaryQueue (enableShuffle rnd ts i s) = temporaryQueue s"
  by (simp add: enableShuffle_def Let_def)

lemma disableShuffle_temporaryQueue [simp]:
  "temporaryQueue (disableShuffle s) = temporaryQueue s"
  by (simp add: disableShuffle_def Let_def split: option.splits)

text \<open>
  C10. \<open>toggleShuffle()\<close> never changes the temporary queue, whether it enables or disables
  shuffle; and with shuffle inactive and an empty context track list it changes nothing
  at all and returns false.
\<close>

theorem toggleShuffle_frame:
  "temporaryQueue (fst (toggleShuffle rnd s)) = temporaryQueue s \<and>
   (\<not> shuffle (playbackContext s) \<and> tracks (playbackContext s) = [] \<longrightarrow>
      toggleShuffle rnd s = (s, False))"
  by (simp add: toggleShuffle_def Let_def)

theorem toggleShuffle_frame_witness:
  "\<not> shuffle (playbackContext initial) \<and> tracks (playbackContext initial) = [] \<and>
   toggleShuffle id_rnd initial = (initial, False)"
proof -
  have h: "\<not> shuffle (playbackContext initial) \<and> tracks (playbackContext initial) = []"
    by (simp add: initial_def empty_context_def)
  show ?thesis using toggleShuffle_frame [of id_rnd initial] h by simp
qed

section \<open>Shuffle on, shuffle off\<close>

lemma findIndex_ge: "- 1 \<le> findIndex p xs"
  by (induction xs) (auto simp: Let_def)

lemma findIndex_found:
  "\<exists>x\<in>set xs. p x \<Longrightarrow>
   0 \<le> findIndex p xs \<and> findIndex p xs < int (length xs) \<and> p (xs ! nat (findIndex p xs))"
proof (induction xs)
  case Nil
  then show ?case by simp
next
  case (Cons a xs)
  show ?case
  proof (cases "p a")
    case True
    then show ?thesis by simp
  next
    case False
    with Cons.prems have "\<exists>x\<in>set xs. p x" by simp
    from Cons.IH [OF this] False show ?thesis
      by (simp add: Let_def nat_add_distrib)
  qed
qed

lemma findIndex_first:
  "i < length xs \<Longrightarrow> p (xs ! i) \<Longrightarrow> \<forall>j<i. \<not> p (xs ! j) \<Longrightarrow> findIndex p xs = int i"
proof (induction xs arbitrary: i)
  case Nil
  then show ?case by simp
next
  case (Cons a xs)
  show ?case
  proof (cases i)
    case 0
    with Cons.prems show ?thesis by simp
  next
    case (Suc k)
    with Cons.prems have na: "\<not> p a" by auto
    have "findIndex p xs = int k"
      using Cons.prems Suc by (intro Cons.IH) auto
    with na Suc show ?thesis by (simp add: Let_def)
  qed
qed

lemma findIndex_distinct:
  assumes "distinct (map f xs)" "i < length xs"
  shows "findIndex (\<lambda>t. f t = f (xs ! i)) xs = int i"
proof (rule findIndex_first)
  show "i < length xs" by fact
  show "f (xs ! i) = f (xs ! i)" by simp
  show "\<forall>j<i. \<not> f (xs ! j) = f (xs ! i)"
  proof (intro allI impI)
    fix j assume "j < i"
    with assms have l: "j < length (map f xs)" "i < length (map f xs)" and ne: "j \<noteq> i"
      by auto
    from assms(1) l ne have "map f xs ! j \<noteq> map f xs ! i"
      using nth_eq_iff_index_eq [of "map f xs" j i] by blast
    with \<open>j < i\<close> assms(2) show "\<not> f (xs ! j) = f (xs ! i)" by simp
  qed
qed

text \<open>
  C6. Starting with shuffle off, a non-empty context track list and a current track whose
  id occurs in it, two \<open>toggleShuffle()\<close> calls in a row (whatever the random draws of the
  first) leave the context queue equal to the context's track list in its original order,
  which is the queue from before the first call when that queue was the track list, and
  the context index at the first track with the id of the current track; when the ids of
  the list are distinct and the index pointed at the current track, it is the same index.
  Shuffle is off again and the temporary queue is untouched.
\<close>

theorem toggleShuffle_twice:
  assumes off: "\<not> shuffle (playbackContext s)"
    and ne: "tracks (playbackContext s) \<noteq> []"
    and cur: "currentTrack s = Some c"
    and mem: "\<exists>t\<in>set (tracks (playbackContext s)). youtube_id t = youtube_id c"
  shows "(let ts = tracks (playbackContext s);
              r2 = toggleShuffle rnd2 (fst (toggleShuffle rnd1 s));
              s2 = fst r2 in
          snd (toggleShuffle rnd1 s) \<and> \<not> snd r2 \<and> \<not> shuffle (playbackContext s2) \<and>
          contextQueue s2 = map Some ts \<and>
          (contextQueue s = map Some ts \<longrightarrow> contextQueue s2 = contextQueue s) \<and>
          0 \<le> contextQueueIndex s2 \<and> contextQueueIndex s2 < int (length ts) \<and>
          contextQueueIndex s2 = findIndex (\<lambda>t. youtube_id t = youtube_id c) ts \<and>
          slot_at (contextQueue s2) (contextQueueIndex s2) = Some (ts ! nat (contextQueueIndex s2)) \<and>
          youtube_id (ts ! nat (contextQueueIndex s2)) = youtube_id c \<and>
          (distinct (map youtube_id ts) \<and> js_nth ts (contextQueueIndex s) = Some c \<longrightarrow>
             contextQueueIndex s2 = contextQueueIndex s) \<and>
          temporaryQueue s2 = temporaryQueue s \<and> currentTrack s2 = currentTrack s)"
proof -
  define ts where "ts = tracks (playbackContext s)"
  define s1 where "s1 = enableShuffle rnd1 ts (queueIndex s) s"
  define ix where "ix = findIndex (\<lambda>t. youtube_id t = youtube_id c) ts"
  have t1: "toggleShuffle rnd1 s = (s1, True)"
    using off ne by (simp add: toggleShuffle_def s1_def ts_def enableShuffle_def Let_def)
  have s1f: "shuffle (playbackContext s1)" "originalQueue s1 = ts" "currentTrack s1 = Some c"
    "temporaryQueue s1 = temporaryQueue s"
    using cur by (simp_all add: s1_def enableShuffle_def Let_def)
  define s2 where "s2 = disableShuffle s1"
  have t2: "toggleShuffle rnd2 s1 = (s2, shuffle (playbackContext s2))"
    using s1f by (simp add: toggleShuffle_def s2_def Let_def)
  have fnd: "0 \<le> ix \<and> ix < int (length ts) \<and> youtube_id (ts ! nat ix) = youtube_id c"
    using findIndex_found [of ts "\<lambda>t. youtube_id t = youtube_id c"] mem
    by (simp add: ix_def ts_def)
  have tne: "ts \<noteq> []" using ne by (simp add: ts_def)
  have s2f: "contextQueue s2 = map Some ts" "contextQueueIndex s2 = ix"
    "\<not> shuffle (playbackContext s2)" "temporaryQueue s2 = temporaryQueue s"
    "currentTrack s2 = Some c"
    using s1f tne fnd by (simp_all add: s2_def disableShuffle_def Let_def ix_def)
  have "nat ix < length ts" using fnd by linarith
  then have "map Some ts ! nat ix = Some (ts ! nat ix)" by (rule nth_map)
  then have sl: "slot_at (contextQueue s2) (contextQueueIndex s2) = Some (ts ! nat ix)"
    using s2f fnd by (simp add: slot_at_def js_nth_def)
  have same: "ix = contextQueueIndex s"
    if "distinct (map youtube_id ts)" "js_nth ts (contextQueueIndex s) = Some c"
  proof -
    from that(2) have r: "0 \<le> contextQueueIndex s" "nat (contextQueueIndex s) < length ts"
      "ts ! nat (contextQueueIndex s) = c"
      by (auto simp: js_nth_def split: if_splits)
    from findIndex_distinct [OF that(1) r(2)] r show ?thesis by (simp add: ix_def)
  qed
  show ?thesis
    unfolding Let_def ts_def [symmetric] t1 fst_conv snd_conv t2
    using s2f sl fnd same cur by (simp add: ix_def)
qed

theorem toggleShuffle_twice_witness:
  "\<not> shuffle (playbackContext at_B) \<and> tracks (playbackContext at_B) \<noteq> [] \<and>
   currentTrack at_B = Some (mk_track ''B'') \<and>
   contextQueue (fst (toggleShuffle id_rnd (fst (toggleShuffle id_rnd at_B))))
     = contextQueue at_B \<and>
   contextQueueIndex (fst (toggleShuffle id_rnd (fst (toggleShuffle id_rnd at_B)))) = 1"
proof -
  have h: "\<not> shuffle (playbackContext at_B)" "tracks (playbackContext at_B) \<noteq> []"
    "currentTrack at_B = Some (mk_track ''B'')"
    "\<exists>t\<in>set (tracks (playbackContext at_B)). youtube_id t = youtube_id (mk_track ''B'')"
    by (simp_all add: at_B_fields)
  have d: "distinct (map youtube_id (tracks (playbackContext at_B)))"
    "js_nth (tracks (playbackContext at_B)) (contextQueueIndex at_B)
       = Some (mk_track ''B'')"
    by (simp_all add: at_B_fields mk_track_def js_nth_def)
  show ?thesis
    using toggleShuffle_twice [OF h, of id_rnd id_rnd] h d
    by (simp add: Let_def at_B_fields)
qed

section \<open>The context index invariant\<close>

lemma findIndex_none: "\<forall>x\<in>set xs. \<not> p x \<Longrightarrow> findIndex p xs = - 1"
  by (induction xs) (simp_all add: Let_def)

lemma ctx_inv_playTrack: "ctx_inv (fst (playTrack r s t))"
  by (simp add: ctx_inv_def playTrack_def Let_def)

lemma enableShuffle_context:
  "contextQueue (enableShuffle rnd ts i s) \<noteq> [] \<and> contextQueueIndex (enableShuffle rnd ts i s) = 0"
  by (simp add: enableShuffle_def Let_def)

lemma ctx_inv_enableShuffle: "ctx_inv (enableShuffle rnd ts i s)"
  using enableShuffle_context [of rnd ts i s]
  by (cases "contextQueue (enableShuffle rnd ts i s)") (simp_all add: ctx_inv_def)

lemma ctx_inv_disableShuffle: "ctx_inv s \<Longrightarrow> ctx_inv (disableShuffle s)"
proof (cases "currentTrack s")
  case None
  assume "ctx_inv s"
  with None show ?thesis by (simp add: disableShuffle_def)
next
  case (Some cur)
  assume inv: "ctx_inv s"
  show ?thesis
  proof (cases "originalQueue s")
    case Nil
    with Some inv show ?thesis by (simp add: disableShuffle_def)
  next
    case (Cons a as)
    define ix where "ix = findIndex (\<lambda>t. youtube_id t = youtube_id cur) (originalQueue s)"
    have "ix < 0 \<or> (0 \<le> ix \<and> ix < int (length (originalQueue s)))"
    proof (cases "\<exists>x\<in>set (originalQueue s). youtube_id x = youtube_id cur")
      case True
      from findIndex_found [OF this] show ?thesis by (simp add: ix_def)
    next
      case False
      then have "findIndex (\<lambda>t. youtube_id t = youtube_id cur) (originalQueue s) = - 1"
        by (intro findIndex_none) simp
      then show ?thesis by (simp add: ix_def)
    qed
    then show ?thesis
      using Some Cons
      by (auto simp: disableShuffle_def Let_def ctx_inv_def ix_def)
  qed
qed

lemma ctx_inv_toggleShuffle: "ctx_inv s \<Longrightarrow> ctx_inv (fst (toggleShuffle rnd s))"
  by (simp add: toggleShuffle_def Let_def ctx_inv_enableShuffle ctx_inv_disableShuffle)

text \<open>Under the invariant the context index is never below -1.\<close>

lemma ctx_inv_index_ge: "ctx_inv s \<Longrightarrow> - 1 \<le> contextQueueIndex s"
  by (cases "contextQueue s = []") (simp_all add: ctx_inv_def)

lemma ctx_inv_addToQueue: "ctx_inv s \<Longrightarrow> ctx_inv (fst (addToQueue s tr pn))"
  by (auto simp: addToQueue_def ctx_inv_def split: option.splits)

lemma ctx_inv_playNext: "ctx_inv s \<Longrightarrow> ctx_inv (fst (playNext r s))"
  by (auto simp: playNext_def ctx_inv_def Let_def split: list.splits option.splits)

lemma ctx_inv_playPrevious: "ctx_inv s \<Longrightarrow> ctx_inv (fst (playPrevious r s))"
  by (auto simp: playPrevious_def ctx_inv_def Let_def)

lemma ctx_inv_clearQueue: "ctx_inv (clearQueue s)"
  by (simp add: clearQueue_def ctx_inv_def)

lemma ctx_inv_playContext:
  assumes "0 \<le> num_or_0 (arg_startIndex c)"
    and "num_or_0 (arg_startIndex c) < int (length (arg_tracks c))"
  shows "ctx_inv (fst (playContext rnd r s c))"
proof (cases "arg_shuffle c")
  case True
  have "contextQueue (fst (playContext rnd r s c)) \<noteq> [] \<and>
        contextQueueIndex (fst (playContext rnd r s c)) = 0"
    using True by (simp add: playContext_def Let_def enableShuffle_def)
  then show ?thesis
    by (cases "contextQueue (fst (playContext rnd r s c))") (simp_all add: ctx_inv_def)
next
  case False
  with assms show ?thesis
    by (auto simp: playContext_def Let_def ctx_inv_def)
qed

lemma ctx_inv_loadPlaybackState:
  assumes "savePlaybackState s0 = Some snap" and "ctx_inv s0"
  shows "ctx_inv (loadPlaybackState s (Some (Json snap)))"
proof -
  from assms(1) obtain t where t: "currentTrack s0 = Some t"
    by (auto simp: savePlaybackState_def split: option.splits)
  with assms(1) have f: "sn_contextQueue snap = Some (contextQueue s0)"
    "sn_contextQueueIndex snap = Some (contextQueueIndex s0)" "sn_track snap = Some t"
    by (auto simp: savePlaybackState_def)
  have "contextQueue (loadPlaybackState s (Some (Json snap))) = contextQueue s0 \<and>
        contextQueueIndex (loadPlaybackState s (Some (Json snap))) = contextQueueIndex s0"
    using f by (simp add: loadPlaybackState_def Let_def list_or_empty_def num_or_0_def
        split: option.splits)
  then show ?thesis using assms(2) by (simp add: ctx_inv_def)
qed

text \<open>
  C9 (amended). The constructor's state satisfies the invariant (a non-empty context queue
  has its index inside it, and the index is -1 exactly when the queue is empty), and every
  public operation started in a state that satisfies it ends in one that does, provided
  \<open>playContext\<close> is given a start index inside its track list and a restore reads a
  snapshot saved from a state that satisfies it (or finds nothing it can parse). Without
  shuffle and with an empty track list, \<open>playContext\<close> leaves the context queue empty
  and the index at the start index.
\<close>

theorem ctx_inv_preserved:
  "ctx_inv initial \<and>
   (ctx_inv s \<longrightarrow>
      ctx_inv (fst (playTrack r s t)) \<and>
      (0 \<le> num_or_0 (arg_startIndex c) \<and> num_or_0 (arg_startIndex c) < int (length (arg_tracks c))
         \<longrightarrow> ctx_inv (fst (playContext rnd r s c))) \<and>
      ctx_inv (fst (addToQueue s tr pn)) \<and>
      ctx_inv (fst (playNext r s)) \<and>
      ctx_inv (fst (playPrevious r s)) \<and>
      ctx_inv (fst (toggleShuffle rnd s)) \<and>
      ctx_inv (clearQueue s) \<and>
      (savePlaybackState s0 = Some snap \<and> ctx_inv s0
         \<longrightarrow> ctx_inv (loadPlaybackState s (Some (Json snap)))) \<and>
      ctx_inv (loadPlaybackState s (Some Unparsable)) \<and>
      ctx_inv (loadPlaybackState s None)) \<and>
   (arg_tracks c = [] \<and> \<not> arg_shuffle c \<longrightarrow>
      contextQueue (fst (playContext rnd r s c)) = [] \<and>
      contextQueueIndex (fst (playContext rnd r s c)) = num_or_0 (arg_startIndex c))"
proof (intro conjI impI)
  show "ctx_inv initial" by (simp add: ctx_inv_def initial_def)
next
  show "ctx_inv (fst (playTrack r s t))" by (rule ctx_inv_playTrack)
next
  assume "0 \<le> num_or_0 (arg_startIndex c) \<and>
    num_or_0 (arg_startIndex c) < int (length (arg_tracks c))"
  then show "ctx_inv (fst (playContext rnd r s c))" by (simp add: ctx_inv_playContext)
next
  assume "ctx_inv s"
  then show "ctx_inv (fst (addToQueue s tr pn))" by (rule ctx_inv_addToQueue)
next
  assume "ctx_inv s"
  then show "ctx_inv (fst (playNext r s))" by (rule ctx_inv_playNext)
next
  assume "ctx_inv s"
  then show "ctx_inv (fst (playPrevious r s))" by (rule ctx_inv_playPrevious)
next
  assume "ctx_inv s"
  then show "ctx_inv (fst (toggleShuffle rnd s))" by (rule ctx_inv_toggleShuffle)
next
  show "ctx_inv (clearQueue s)" by (rule ctx_inv_clearQueue)
next
  assume "savePlaybackState s0 = Some snap \<and> ctx_inv s0"
  then have "savePlaybackState s0 = Some snap" and "ctx_inv s0" by simp_all
  then show "ctx_inv (loadPlaybackState s (Some (Json snap)))"
    by (rule ctx_inv_loadPlaybackState)
next
  assume "ctx_inv s"
  then show "ctx_inv (loadPlaybackState s (Some Unparsable))"
    by (simp add: loadPlaybackState_def)
next
  assume "ctx_inv s"
  then show "ctx_inv (loadPlaybackState s None)"
    by (simp add: loadPlaybackState_def)
next
  assume "arg_tracks c = [] \<and> \<not> arg_shuffle c"
  then show "contextQueue (fst (playContext rnd r s c)) = []"
    by (simp add: playContext_def Let_def)
next
  assume "arg_tracks c = [] \<and> \<not> arg_shuffle c"
  then show "contextQueueIndex (fst (playContext rnd r s c)) = num_or_0 (arg_startIndex c)"
    by (simp add: playContext_def Let_def)
qed

theorem ctx_inv_preserved_witness:
  "ctx_inv at_B \<and> contextQueue at_B \<noteq> [] \<and>
   0 \<le> num_or_0 (arg_startIndex abc_arg) \<and>
   num_or_0 (arg_startIndex abc_arg) < int (length (arg_tracks abc_arg)) \<and>
   savePlaybackState at_B \<noteq> None \<and>
   ctx_inv (fst (playContext id_rnd no_resolver at_B abc_arg)) \<and>
   ctx_inv (fst (playNext no_resolver at_B)) \<and>
   ctx_inv (loadPlaybackState at_B (Some (Json (the (savePlaybackState at_B))))) \<and>
   arg_tracks empty_arg = [] \<and> \<not> arg_shuffle empty_arg \<and>
   contextQueue (fst (playContext id_rnd no_resolver at_B empty_arg)) = [] \<and>
   contextQueueIndex (fst (playContext id_rnd no_resolver at_B empty_arg)) = 0"
proof -
  have i: "ctx_inv at_B" "contextQueue at_B \<noteq> []"
    by (simp_all add: ctx_inv_def at_B_fields)
  have a: "0 \<le> num_or_0 (arg_startIndex abc_arg)"
    "num_or_0 (arg_startIndex abc_arg) < int (length (arg_tracks abc_arg))"
    by (simp_all add: abc_arg_def num_or_0_def)
  have sv: "savePlaybackState at_B \<noteq> None"
    by (simp add: savePlaybackState_def at_B_fields)
  then have sv': "savePlaybackState at_B = Some (the (savePlaybackState at_B))"
    by simp
  have e: "arg_tracks empty_arg = []" "\<not> arg_shuffle empty_arg"
    "num_or_0 (arg_startIndex empty_arg) = 0"
    by (simp_all add: empty_arg_def num_or_0_def)
  have 1: "ctx_inv (fst (playContext id_rnd no_resolver at_B abc_arg)) \<and>
      ctx_inv (fst (playNext no_resolver at_B)) \<and>
      ctx_inv (loadPlaybackState at_B (Some (Json (the (savePlaybackState at_B)))))"
    using ctx_inv_preserved [of at_B no_resolver "mk_track ''A''" abc_arg id_rnd None False
        at_B "the (savePlaybackState at_B)"] i a sv sv'
    by simp
  have 2: "contextQueue (fst (playContext id_rnd no_resolver at_B empty_arg)) = [] \<and>
      contextQueueIndex (fst (playContext id_rnd no_resolver at_B empty_arg)) = 0"
    using ctx_inv_preserved [of at_B no_resolver "mk_track ''A''" empty_arg id_rnd None False
        at_B "the (savePlaybackState at_B)"] e
    by simp
  show ?thesis using i a sv e 1 2 by simp
qed

text \<open>
  Without the proviso the invariant fails: \<open>playContext\<close> without shuffle on an empty track
  list leaves the context queue empty and the index at the start index 0, not at -1.
\<close>

theorem ctx_inv_counterexample:
  "ctx_inv initial \<and>
   contextQueue (fst (playContext id_rnd no_resolver initial empty_arg)) = [] \<and>
   contextQueueIndex (fst (playContext id_rnd no_resolver initial empty_arg)) = 0 \<and>
   \<not> ctx_inv (fst (playContext id_rnd no_resolver initial empty_arg))"
  by (simp add: playContext_def empty_arg_def Let_def num_or_0_def ctx_inv_def initial_def)

section \<open>What a shuffle produces\<close>

lemma fisher_yates_length [simp]: "length (fisher_yates rnd k xs) = length xs"
  by (induction k arbitrary: xs) (simp_all add: Let_def)

lemma fisher_yates_mset: "k < length xs \<Longrightarrow> mset (fisher_yates rnd k xs) = mset xs"
proof (induction k arbitrary: xs)
  case 0
  then show ?case by simp
next
  case (Suc k)
  define j where "j = rnd (Suc k) mod (Suc k + 1)"
  have "j < Suc k + 1" unfolding j_def by (rule mod_less_divisor) simp
  with Suc.prems have j: "j < length xs" by linarith
  have sw: "mset (xs[Suc k := xs ! j, j := xs ! Suc k]) = mset xs"
    using mset_swap [OF j Suc.prems] .
  have "mset (fisher_yates rnd k (xs[Suc k := xs ! j, j := xs ! Suc k]))
          = mset (xs[Suc k := xs ! j, j := xs ! Suc k])"
    using Suc.prems by (intro Suc.IH) simp
  with sw show ?case by (simp add: Let_def j_def)
qed

lemma fisher_yates_mset': "mset (fisher_yates rnd (length xs - 1) xs) = mset xs"
  by (cases xs) (simp_all add: fisher_yates_mset)

lemma upt_pin_mset: "a < n \<Longrightarrow> mset (a # filter (\<lambda>k. k \<noteq> a) [0 ..< n]) = mset [0 ..< n]"
proof (induction n)
  case 0
  then show ?case by simp
next
  case (Suc n)
  show ?case
  proof (cases "a = n")
    case True
    have "filter (\<lambda>k. k \<noteq> n) [0 ..< n] = [0 ..< n]"
      by (rule filter_True) simp
    with True show ?thesis by simp
  next
    case False
    with Suc.prems have "a < n" by simp
    from Suc.IH [OF this] False show ?thesis by simp
  qed
qed

lemma enableShuffle_head:
  "contextQueue (enableShuffle rnd ts i s) \<noteq> [] \<and>
   hd (contextQueue (enableShuffle rnd ts i s)) = js_nth ts i \<and>
   slot_at (contextQueue (enableShuffle rnd ts i s)) 0 = js_nth ts i"
  by (simp add: enableShuffle_def Let_def slot_at_def js_nth_def)

text \<open>
  What \<open>enableShuffle\<close> guarantees about the index it is given: when that index lies inside
  the track list, the new context queue starts with the track at that index, holds every
  track of the list exactly as often as the list does, and the context index is 0.
\<close>

lemma enableShuffle_pins_given_index:
  assumes lo: "0 \<le> i" and hi: "i < int (length ts)"
  shows "slot_at (contextQueue (enableShuffle rnd ts i s)) 0 = Some (ts ! nat i) \<and>
         contextQueueIndex (enableShuffle rnd ts i s) = 0 \<and>
         mset (contextQueue (enableShuffle rnd ts i s)) = mset (map Some ts) \<and>
         originalQueue (enableShuffle rnd ts i s) = ts \<and>
         shuffle (playbackContext (enableShuffle rnd ts i s))"
proof -
  define n where "n = length ts"
  define a where "a = nat i"
  define indices where "indices = filter (\<lambda>k. int k \<noteq> i) [0 ..< n]"
  define shuffled where "shuffled = fisher_yates rnd (length indices - 1) indices"
  have an: "a < n" and ia: "i = int a" using lo hi by (simp_all add: a_def n_def)
  have ind: "indices = filter (\<lambda>k. k \<noteq> a) [0 ..< n]"
    by (simp add: indices_def ia)
  have ms: "mset shuffled = mset indices"
    unfolding shuffled_def by (rule fisher_yates_mset')
  then have "mset (a # shuffled) = mset [0 ..< n]"
    using upt_pin_mset [OF an] by (simp add: ind)
  then have all: "mset (map (\<lambda>k. Some (ts ! k)) (a # shuffled)) = mset (map (\<lambda>k. Some (ts ! k)) [0 ..< n])"
    by (metis mset_map)
  have "set shuffled = set indices" using ms by (rule mset_eq_setD)
  then have bound: "\<forall>k\<in>set (a # shuffled). k < n" using an by (auto simp: ind)
  have e1: "map (js_nth ts) (map int (a # shuffled)) = map (\<lambda>k. Some (ts ! k)) (a # shuffled)"
    using bound by (simp add: js_nth_def n_def)
  have e2: "map (\<lambda>k. Some (ts ! k)) [0 ..< n] = map Some ts"
    by (rule nth_equalityI) (simp_all add: n_def)
  have e3: "contextQueue (enableShuffle rnd ts i s) = map (js_nth ts) (map int (a # shuffled))"
    by (simp add: enableShuffle_def Let_def shuffled_def indices_def n_def ia)
  have "mset (contextQueue (enableShuffle rnd ts i s))
      = mset (map (\<lambda>k. Some (ts ! k)) (a # shuffled))"
    by (simp only: e3 e1)
  also have "\<dots> = mset (map (\<lambda>k. Some (ts ! k)) [0 ..< n])" by (rule all)
  also have "\<dots> = mset (map Some ts)" by (simp only: e2)
  finally have "mset (contextQueue (enableShuffle rnd ts i s)) = mset (map Some ts)" .
  moreover have "slot_at (contextQueue (enableShuffle rnd ts i s)) 0 = Some (ts ! nat i)"
    using enableShuffle_head [of rnd ts i s] lo hi by (simp add: js_nth_def)
  ultimately show ?thesis by (simp add: enableShuffle_def Let_def)
qed

text \<open>
  \<open>playContext\<close> with shuffle hands \<open>enableShuffle\<close> the start index, so the track the caller
  starts on is first and is the one played.
\<close>

lemma playContext_shuffle_pins:
  assumes "arg_shuffle c" and "0 \<le> num_or_0 (arg_startIndex c)"
    and "num_or_0 (arg_startIndex c) < int (length (arg_tracks c))"
  shows "slot_at (contextQueue (fst (playContext rnd r s c))) 0
           = Some (arg_tracks c ! nat (num_or_0 (arg_startIndex c))) \<and>
         snd (playContext rnd r s c) = Some (arg_tracks c ! nat (num_or_0 (arg_startIndex c))) \<and>
         contextQueueIndex (fst (playContext rnd r s c)) = 0 \<and>
         mset (contextQueue (fst (playContext rnd r s c))) = mset (map Some (arg_tracks c))"
proof -
  define s1 where "s1 = s\<lparr>temporaryQueue := [],
                 playbackContext :=
                   \<lparr>ctype = arg_type c, cid = str_or (arg_id c) None,
                    cname = str_or (arg_name c) (getContextDisplayName (arg_type c)),
                    tracks = arg_tracks c, shuffle = arg_shuffle c\<rparr>\<rparr>"
  define s2 where "s2 = enableShuffle rnd (arg_tracks c) (num_or_0 (arg_startIndex c)) s1"
  note p = enableShuffle_pins_given_index [OF assms(2,3), of rnd s1, folded s2_def]
  have ne: "contextQueue s2 \<noteq> []"
    using enableShuffle_head [of rnd "arg_tracks c" "num_or_0 (arg_startIndex c)" s1]
    by (simp add: s2_def)
  have "playContext rnd r s c =
      (loadAndPlayTrack r (s2\<lparr>queue := contextQueue s2, queueIndex := contextQueueIndex s2\<rparr>)
         (slot_at (contextQueue s2) (contextQueueIndex s2)),
       slot_at (contextQueue s2) (contextQueueIndex s2))"
    using assms(1) ne by (simp add: playContext_def Let_def s1_def s2_def)
  then show ?thesis using p by simp
qed

lemma playContext_shuffle_example:
  "slot_at (contextQueue (fst (playContext rnd r s shuffle_arg))) 0 = Some (mk_track ''B'') \<and>
   mset (contextQueue (fst (playContext rnd r s shuffle_arg)))
     = {#Some (mk_track ''A''), Some (mk_track ''B''), Some (mk_track ''C'')#}"
proof -
  have h: "arg_shuffle shuffle_arg" "0 \<le> num_or_0 (arg_startIndex shuffle_arg)"
    "num_or_0 (arg_startIndex shuffle_arg) < int (length (arg_tracks shuffle_arg))"
    by (simp_all add: shuffle_arg_def abc_arg_def num_or_0_def)
  show ?thesis
    using playContext_shuffle_pins [OF h, of rnd r s]
    by (simp add: shuffle_arg_def abc_arg_def num_or_0_def)
qed

text \<open>
  C5 (the code at the failing input). After \<open>playContext\<close> on \<open>[A, B, C]\<close> from index 1 and
  one \<open>addToQueue(X)\<close>, track B is current and the context index is 1, but the combined
  queue index is 0. \<open>toggleShuffle()\<close> pins that index: whatever the random draws, the
  shuffled context queue starts with A, at context index 0, while B is still the current
  track.
\<close>

theorem toggleShuffle_pins_queueIndex:
  "currentTrack queued_at_B = Some (mk_track ''B'') \<and>
   slot_at (contextQueue queued_at_B) (contextQueueIndex queued_at_B) = Some (mk_track ''B'') \<and>
   queueIndex queued_at_B = 0 \<and>
   snd (toggleShuffle rnd queued_at_B) \<and>
   slot_at (contextQueue (fst (toggleShuffle rnd queued_at_B))) 0 = Some (mk_track ''A'') \<and>
   contextQueueIndex (fst (toggleShuffle rnd queued_at_B)) = 0 \<and>
   currentTrack (fst (toggleShuffle rnd queued_at_B)) = Some (mk_track ''B'') \<and>
   mk_track ''A'' \<noteq> mk_track ''B''"
proof -
  have t: "toggleShuffle rnd queued_at_B =
      (enableShuffle rnd [mk_track ''A'', mk_track ''B'', mk_track ''C''] 0 queued_at_B, True)"
    by (simp add: toggleShuffle_def queued_at_B_fields Let_def enableShuffle_def)
  have p: "slot_at (contextQueue (enableShuffle rnd [mk_track ''A'', mk_track ''B'', mk_track ''C''] 0 queued_at_B)) 0
      = Some (mk_track ''A'')"
    using enableShuffle_head [of rnd "[mk_track ''A'', mk_track ''B'', mk_track ''C'']" 0 queued_at_B]
    by (simp add: js_nth_def)
  have c: "currentTrack (enableShuffle rnd [mk_track ''A'', mk_track ''B'', mk_track ''C''] 0 queued_at_B)
      = Some (mk_track ''B'')"
    "contextQueueIndex (enableShuffle rnd [mk_track ''A'', mk_track ''B'', mk_track ''C''] 0 queued_at_B) = 0"
    by (simp_all add: enableShuffle_def Let_def queued_at_B_fields)
  show ?thesis
    unfolding t fst_conv snd_conv
    using p c by (simp add: queued_at_B_fields slot_at_def js_nth_def mk_track_def)
qed

section \<open>The preload cache bounds\<close>

text \<open>
  A playlist of three tracks of 1000 seconds each: the first preload pass stores the second
  track, and after \<open>playNext()\<close> the next pass stores the third.
\<close>

lemma long_started_cache:
  "preloadCache long_started =
     [(Some ''t1'', \<lparr>url = ''https://stream'', ctrack = long_track ''t1'', timestamp = 100, cduration = 1000\<rparr>)]"
  by code_simp

lemma long_cache:
  "preloadCache long_cache_state =
     [(Some ''t1'', \<lparr>url = ''https://stream'', ctrack = long_track ''t1'', timestamp = 100, cduration = 1000\<rparr>),
      (Some ''t2'', \<lparr>url = ''https://stream'', ctrack = long_track ''t2'', timestamp = 200, cduration = 1000\<rparr>)]"
  by code_simp

text \<open>
  C4 (the code at the failing input). After those two passes, each of which ended with
  \<open>cleanupPreloadCache\<close>, the cache holds two entries that add up to 2000 seconds. A further
  cleanup pass changes nothing, because the pass only runs when the cache holds more than
  5 entries: the total stays above the bound of 1800 seconds.
\<close>

theorem cleanup_keeps_long_cache:
  "map fst (preloadCache long_cache_state) = [Some ''t1'', Some ''t2''] \<and>
   int (length (preloadCache long_cache_state)) \<le> maxPreloadTracks \<and>
   total_duration (preloadCache long_cache_state) = 2000 \<and>
   cleanupPreloadCache long_cache_state = (long_cache_state, Returns []) \<and>
   total_duration (preloadCache (fst (cleanupPreloadCache long_cache_state))) > maxPreloadDuration"
proof -
  have c: "cleanupPreloadCache long_cache_state = (long_cache_state, Returns [])"
    by (simp add: cleanupPreloadCache_def long_cache maxPreloadTracks_def)
  show ?thesis
    unfolding c fst_conv
    by (simp add: long_cache total_duration_def maxPreloadTracks_def maxPreloadDuration_def)
qed

lemma map_set_keys: "set (map fst (map_set k v m)) = insert k (set (map fst m))"
proof (induction m)
  case Nil
  then show ?case by simp
next
  case (Cons a m)
  obtain k' v' where a: "a = (k', v')" by (cases a)
  show ?case
  proof (cases "k = k'")
    case True
    with a show ?thesis by simp
  next
    case False
    with a Cons.IH show ?thesis by (simp add: insert_commute)
  qed
qed

lemma map_set_distinct: "distinct (map fst m) \<Longrightarrow> distinct (map fst (map_set k v m))"
proof (induction m)
  case Nil
  then show ?case by simp
next
  case (Cons a m)
  obtain k' v' where a: "a = (k', v')" by (cases a)
  from Cons show ?case
    using map_set_keys [of k v m] by (auto simp: a)
qed

lemma foldl_add_sum_list:
  "foldl (\<lambda>sum kd. sum + f kd) a c = a + sum_list (map f c)"
  for a :: int
  by (induction c arbitrary: a) simp_all

lemma total_duration_sum_list:
  "total_duration c = sum_list (map (\<lambda>kd. cduration (snd kd)) c)"
  by (simp add: total_duration_def foldl_add_sum_list)

lemma total_duration_mset:
  "mset c = mset c' \<Longrightarrow> total_duration c = total_duration c'"
proof -
  assume "mset c = mset c'"
  then have "mset (map (\<lambda>kd. cduration (snd kd)) c) = mset (map (\<lambda>kd. cduration (snd kd)) c')"
    by (metis mset_map)
  then have "sum_mset (mset (map (\<lambda>kd. cduration (snd kd)) c))
      = sum_mset (mset (map (\<lambda>kd. cduration (snd kd)) c'))"
    by simp
  then show ?thesis
    by (simp only: total_duration_sum_list sum_mset_sum_list)
qed

lemma map_delete_subset: "set (map_delete k c) \<subseteq> set c"
  by (induction c) (auto split: if_splits)

lemma map_delete_keys: "set (map fst (map_delete k c)) \<subseteq> set (map fst c)"
  using map_delete_subset [of k c] by auto

lemma map_delete_distinct: "distinct (map fst c) \<Longrightarrow> distinct (map fst (map_delete k c))"
proof (induction c)
  case Nil
  then show ?case by simp
next
  case (Cons a c)
  obtain k' v where a: "a = (k', v)" by (cases a)
  from Cons show ?case
    using map_delete_keys [of k c] by (auto simp: a)
qed

lemma map_delete_mset:
  "distinct (map fst c) \<Longrightarrow> (k, d) \<in> set c \<Longrightarrow> mset (map_delete k c) = mset c - {#(k, d)#}"
proof (induction c)
  case Nil
  then show ?case by simp
next
  case (Cons a c)
  obtain k' v where a: "a = (k', v)" by (cases a)
  show ?case
  proof (cases "k = k'")
    case True
    with Cons.prems a have "d = v" by (force simp: image_iff)
    with True a show ?thesis by simp
  next
    case False
    with Cons.prems a have "(k, d) \<in> set c" "distinct (map fst c)" by auto
    from Cons.IH [OF this(2,1)] False a \<open>(k, d) \<in> set c\<close> show ?thesis
      by simp
  qed
qed

text \<open>
  The eviction loop, run as \<open>cleanupPreloadCache\<close> runs it (on all entries of a cache with
  distinct keys, with their total duration), never shifts an empty array, and when it
  stops both bounds hold for what is left in the cache.
\<close>

lemma evict_bounds:
  assumes "mset es = mset c" and "distinct (map fst c)" and "tot = total_duration es"
  shows "snd (evict es tot c) = Returns [] \<and>
         int (length (fst (evict es tot c))) \<le> maxPreloadTracks \<and>
         total_duration (fst (evict es tot c)) \<le> maxPreloadDuration"
  using assms
proof (induction es arbitrary: tot c)
  case Nil
  then show ?case
    by (simp add: total_duration_def maxPreloadTracks_def maxPreloadDuration_def)
next
  case (Cons e es)
  obtain k d where e: "e = (k, d)" by (cases e)
  show ?case
  proof (cases "int (length (e # es)) > maxPreloadTracks \<or> tot > maxPreloadDuration")
    case True
    have mem: "(k, d) \<in> set c"
      using Cons.prems(1) e by (metis list.set_intros(1) mset_eq_setD)
    have "mset c = add_mset (k, d) (mset es)"
      using Cons.prems(1) e by simp
    then have "mset c - {#(k, d)#} = mset es" by simp
    then have m: "mset es = mset (map_delete k c)"
      using map_delete_mset [OF Cons.prems(2) mem] by simp
    have t: "tot - cduration d = total_duration es"
      using Cons.prems(3) e by (simp add: total_duration_sum_list)
    from Cons.IH [OF m map_delete_distinct [OF Cons.prems(2)] t] True e
    show ?thesis by simp
  next
    case False
    have "length c = length (e # es)"
      using Cons.prems(1) by (metis mset_eq_length)
    moreover have "total_duration c = tot"
      using Cons.prems(1,3) total_duration_mset [of c "e # es"] by simp
    ultimately show ?thesis using False e by simp
  qed
qed

text \<open>
  What \<open>cleanupPreloadCache\<close> does guarantee, for a cache with distinct keys (a Map has no
  others): it never throws, the cache holds at most 5 entries afterwards, and the
  duration bound holds afterwards whenever the cache held more than 5 entries before.
  With at most 5 entries the pass is skipped, whatever the total duration.
\<close>

lemma cleanupPreloadCache_bounds:
  assumes "distinct (map fst (preloadCache s))"
  shows "snd (cleanupPreloadCache s) = Returns [] \<and>
         int (length (preloadCache (fst (cleanupPreloadCache s)))) \<le> maxPreloadTracks \<and>
         (if int (length (preloadCache s)) > maxPreloadTracks
          then total_duration (preloadCache (fst (cleanupPreloadCache s))) \<le> maxPreloadDuration
          else cleanupPreloadCache s = (s, Returns []))"
proof (cases "int (length (preloadCache s)) > maxPreloadTracks")
  case True
  define sorted where "sorted = sort_key (\<lambda>kd. timestamp (snd kd)) (preloadCache s)"
  have m: "mset sorted = mset (preloadCache s)" by (simp add: sorted_def)
  then have t: "total_duration (preloadCache s) = total_duration sorted"
    by (intro total_duration_mset) simp
  note b = evict_bounds [OF m assms t]
  have "cleanupPreloadCache s =
      (s\<lparr>preloadCache := fst (evict sorted (total_duration (preloadCache s)) (preloadCache s))\<rparr>,
       snd (evict sorted (total_duration (preloadCache s)) (preloadCache s)))"
    using True by (simp add: cleanupPreloadCache_def Let_def sorted_def split: prod.splits)
  with b True show ?thesis by simp
next
  case False
  then show ?thesis by (simp add: cleanupPreloadCache_def)
qed

end
